theory Spec2Isabelle
  imports Complex_Main "HOL-Library.Multiset"
begin

section \<open>Isotropic slicer: data model\<close>

text \<open>
  The development embeds the core of \<^verbatim>\<open>src/Python/isotropic_3D_slicer.py\<close>:
  \<^verbatim>\<open>parse_axis\<close>, \<^verbatim>\<open>canonicalize_preserve_c_side\<close>, \<^verbatim>\<open>resample_z_isotropic\<close> and
  \<^verbatim>\<open>save_isotropic_slices\<close>.

  Every \<^verbatim>\<open>raise\<close> of the source is a \<^verbatim>\<open>ValueError\<close> with its own message; the
  model keeps one constructor per raise site. The remaining constructors are the
  exceptions that NumPy or Python raise inside the modelled expressions.
\<close>

datatype error =
    InvalidAxisSpec      \<comment> \<open>\<^verbatim>\<open>parse_axis\<close>: "Invalid axis spec: ..."\<close>
  | AxisOutOfBounds      \<comment> \<open>\<^verbatim>\<open>parse_axis\<close>: "Axis ... out of bounds for ndim=..."\<close>
  | InvalidAxisType      \<comment> \<open>\<^verbatim>\<open>parse_axis\<close>: "Invalid axis type: ..."\<close>
  | DimensionMismatch    \<comment> \<open>canonicalize: "No channels axis but input ndim=... != 3",
                             "Channels provided but input ndim=... (expected 4)"\<close>
  | AxisConflict         \<comment> \<open>canonicalize: "z_axis and c_axis refer to the same dimension."\<close>
  | ChannelBetweenXY     \<comment> \<open>canonicalize: "Channel axis must be either before both XY or after both XY ..."\<close>
  | TransposeError       \<comment> \<open>\<^verbatim>\<open>ndarray.transpose\<close>: axes do not match the array, or an axis is repeated\<close>
  | IndexError           \<comment> \<open>an index outside its axis, or \<^verbatim>\<open>shape[0]\<close> of a 0-d array\<close>
  | TypeError            \<comment> \<open>\<^verbatim>\<open>None >= 0\<close>\<close>
  | UnpackError          \<comment> \<open>\<^verbatim>\<open>Z, Y, X = arr_iso.shape\<close> with the wrong number of values\<close>
  | EmptyMax             \<comment> \<open>\<^verbatim>\<open>np.max\<close> of a zero-size array\<close>

text \<open>
  A NumPy array is its shape and its elements in row-major (C) order. The element type
  is left open: integer labels or image samples.
\<close>

record 'a ndarray =
  shape :: "nat list"
  data :: "'a list"

definition ndim :: "'a ndarray \<Rightarrow> nat" where
  "ndim arr = length (shape arr)"

text \<open>\<^verbatim>\<open>arr.size\<close>: the number of elements the shape announces.\<close>

definition size_of :: "'a ndarray \<Rightarrow> nat" where
  "size_of arr = prod_list (shape arr)"

text \<open>An array is well formed when it holds exactly \<^verbatim>\<open>arr.size\<close> elements.\<close>

definition wf_array :: "'a ndarray \<Rightarrow> bool" where
  "wf_array arr = (length (data arr) = prod_list (shape arr))"

text \<open>All multi-indices of a shape, in row-major order, and the flat offset of one.\<close>

fun indices :: "nat list \<Rightarrow> nat list list" where
  "indices [] = [[]]"
| "indices (n # ns) = concat (map (\<lambda>i. map ((#) i) (indices ns)) [0..<n])"

fun ravel :: "nat \<Rightarrow> nat list \<Rightarrow> nat list \<Rightarrow> nat" where
  "ravel acc (n # ns) (i # is) = ravel (acc * n + i) ns is"
| "ravel acc _ _ = acc"

definition item :: "'a ndarray \<Rightarrow> nat list \<Rightarrow> 'a" where
  "item arr idx = data arr ! ravel 0 (shape arr) idx"

section \<open>Axis tokens: \<^verbatim>\<open>parse_axis\<close>\<close>

text \<open>
  The argument \<^verbatim>\<open>ax_str\<close> is dynamically typed: a string, \<^verbatim>\<open>None\<close>, an integer, or
  anything else. Strings are ASCII here: \<^verbatim>\<open>str.strip\<close> removes the ASCII white space
  Python knows (codes 9 to 13, 28 to 32), \<^verbatim>\<open>str.lower\<close> maps \<^verbatim>\<open>A-Z\<close> to \<^verbatim>\<open>a-z\<close>, and
  \<^verbatim>\<open>int(s)\<close> reads an optional sign followed by decimal digits, single underscores
  allowed between digits.
\<close>

datatype axis_arg = AStr string | ANone | AInt int | AOther

definition is_space :: "char \<Rightarrow> bool" where
  "is_space c = (let k = (of_char c :: nat) in (9 \<le> k \<and> k \<le> 13) \<or> (28 \<le> k \<and> k \<le> 32))"

definition strip :: "string \<Rightarrow> string" where
  "strip s = rev (dropWhile is_space (rev (dropWhile is_space s)))"

definition lower_char :: "char \<Rightarrow> char" where
  "lower_char c = (let k = (of_char c :: nat) in if 65 \<le> k \<and> k \<le> 90 then char_of (k + 32) else c)"

definition lower :: "string \<Rightarrow> string" where
  "lower s = map lower_char s"

definition is_digit :: "char \<Rightarrow> bool" where
  "is_digit c = (let k = (of_char c :: nat) in 48 \<le> k \<and> k \<le> 57)"

definition digit_val :: "char \<Rightarrow> nat" where
  "digit_val c = of_char c - 48"

fun parse_digits :: "nat \<Rightarrow> string \<Rightarrow> nat option" where
  "parse_digits acc [] = Some acc"
| "parse_digits acc (c # cs) =
     (if is_digit c then parse_digits (acc * 10 + digit_val c) cs
      else if c = CHR ''_'' then
        (case cs of
           [] \<Rightarrow> None
         | d # ds \<Rightarrow> if is_digit d then parse_digits (acc * 10 + digit_val d) ds else None)
      else None)"

definition parse_unsigned :: "string \<Rightarrow> nat option" where
  "parse_unsigned s =
     (case s of
        [] \<Rightarrow> None
      | c # cs \<Rightarrow> if is_digit c then parse_digits (digit_val c) cs else None)"

text \<open>\<^verbatim>\<open>int(s)\<close> on a stripped string; \<open>None\<close> is Python's \<^verbatim>\<open>ValueError\<close>.\<close>

definition py_int :: "string \<Rightarrow> int option" where
  "py_int s =
     (case s of
        [] \<Rightarrow> None
      | c # cs \<Rightarrow>
          if c = CHR ''-'' then map_option (\<lambda>n. - int n) (parse_unsigned cs)
          else if c = CHR ''+'' then map_option int (parse_unsigned cs)
          else map_option int (parse_unsigned s))"

text \<open>
  \<^verbatim>\<open>
  def parse_axis(ax_str, ndim, allow_none=False):
      if isinstance(ax_str, str):
          s = ax_str.strip().lower()
          if allow_none and s in {"none", "no", "disabled"}: return None
          if s in {"first", "0"}: return 0
          if s in {"last", "-1"}: return ndim - 1
          try:
              i = int(s)
              if not (-ndim <= i < ndim): raise ValueError
              return i
          except Exception:
              raise ValueError(f"Invalid axis spec: {ax_str}")
      if ax_str is None and allow_none: return None
      if isinstance(ax_str, int):
          if not (-ndim <= ax_str < ndim): raise ValueError(f"Axis ... out of bounds ...")
          return ax_str
      raise ValueError(f"Invalid axis type: ...")
  \<close>
  The result \<open>Inr None\<close> is Python's \<^verbatim>\<open>None\<close>, \<open>Inr (Some i)\<close> the integer \<open>i\<close>.
\<close>

definition parse_axis :: "axis_arg \<Rightarrow> int \<Rightarrow> bool \<Rightarrow> error + int option" where
  "parse_axis ax_str nd allow_none =
     (case ax_str of
        AStr raw \<Rightarrow>
          (let s = lower (strip raw) in
           if allow_none \<and> s \<in> {''none'', ''no'', ''disabled''} then Inr None
           else if s \<in> {''first'', ''0''} then Inr (Some 0)
           else if s \<in> {''last'', ''-1''} then Inr (Some (nd - 1))
           else (case py_int s of
                   None \<Rightarrow> Inl InvalidAxisSpec
                 | Some i \<Rightarrow> if \<not> (- nd \<le> i \<and> i < nd) then Inl InvalidAxisSpec
                             else Inr (Some i)))
      | ANone \<Rightarrow> if allow_none then Inr None else Inl InvalidAxisType
      | AInt i \<Rightarrow> if \<not> (- nd \<le> i \<and> i < nd) then Inl AxisOutOfBounds else Inr (Some i)
      | AOther \<Rightarrow> Inl InvalidAxisType)"

section \<open>Canonical layout: \<^verbatim>\<open>canonicalize_preserve_c_side\<close>\<close>

text \<open>
  \<^verbatim>\<open>arr.transpose(perm)\<close>. NumPy wants as many axes as the array has, reads a negative
  axis \<open>a\<close> as \<open>a + ndim\<close>, refuses an axis outside \<open>[-ndim, ndim)\<close> and a repeated axis.
  Axis \<open>i\<close> of the result is axis \<open>perm[i]\<close> of the argument, and the element at
  \<open>idx\<close> of the result is the argument's element whose index has \<open>idx[i]\<close> at
  position \<open>perm[i]\<close>.
\<close>

definition normalize_axis :: "nat \<Rightarrow> int \<Rightarrow> nat option" where
  "normalize_axis n a =
     (if - int n \<le> a \<and> a < int n then Some (nat (if a < 0 then a + int n else a)) else None)"

definition index_of :: "'b list \<Rightarrow> 'b \<Rightarrow> nat" where
  "index_of xs x = length (takeWhile (\<lambda>y. y \<noteq> x) xs)"

definition permuted :: "'a ndarray \<Rightarrow> nat list \<Rightarrow> 'a ndarray" where
  "permuted arr p =
     (let sh = map (\<lambda>k. shape arr ! k) p in
      \<lparr> shape = sh,
        data = map (\<lambda>idx. item arr (map (\<lambda>k. idx ! index_of p k) [0..<length p]))
                   (indices sh) \<rparr>)"

definition transpose_nd :: "'a ndarray \<Rightarrow> int list \<Rightarrow> error + 'a ndarray" where
  "transpose_nd arr perm =
     (if length perm \<noteq> ndim arr then Inl TransposeError
      else (case those (map (normalize_axis (ndim arr)) perm) of
              None \<Rightarrow> Inl TransposeError
            | Some p \<Rightarrow> if \<not> distinct p then Inl TransposeError else Inr (permuted arr p)))"

text \<open>The channel placement \<^verbatim>\<open>cpos\<close>: \<^verbatim>\<open>None\<close>, \<^verbatim>\<open>'before'\<close> or \<^verbatim>\<open>'after'\<close>.\<close>

datatype cpos = Before | After

text \<open>\<^verbatim>\<open>range(ndim)\<close> as Python integers.\<close>

definition py_range :: "nat \<Rightarrow> int list" where
  "py_range n = map int [0..<n]"

text \<open>\<^verbatim>\<open>za = z_axis if z_axis >= 0 else z_axis + ndim\<close>\<close>

definition norm_neg :: "int \<Rightarrow> nat \<Rightarrow> int" where
  "norm_neg a n = (if a \<ge> 0 then a else a + int n)"

text \<open>
  The permutation the function builds, with the placement, before it is applied
  (source lines 150 to 179).
\<close>

definition canonical_perm :: "nat \<Rightarrow> int \<Rightarrow> int option \<Rightarrow> error + (int list \<times> cpos option)" where
  "canonical_perm n z_axis c_axis =
     (let za = norm_neg z_axis n in
      case c_axis of
        None \<Rightarrow>
          if n \<noteq> 3 then Inl DimensionMismatch
          else (let others = filter (\<lambda>i. i \<noteq> za) (py_range n) in
                Inr (za # others, None))
      | Some c \<Rightarrow>
          (let ca = norm_neg c n in
           if n \<noteq> 4 then Inl DimensionMismatch
           else if za = ca then Inl AxisConflict
           else (let others = filter (\<lambda>i. i \<notin> {za, ca}) (py_range n);
                     y_ax = others ! 0;
                     x_ax = others ! 1 in
                 if ca < Min (set others) then Inr ([za, ca, y_ax, x_ax], Some Before)
                 else if ca > Max (set others) then Inr ([za, y_ax, x_ax, ca], Some After)
                 else Inl ChannelBetweenXY)))"

definition canonicalize_preserve_c_side ::
  "'a ndarray \<Rightarrow> int \<Rightarrow> int option \<Rightarrow> error + ('a ndarray \<times> cpos option)" where
  "canonicalize_preserve_c_side arr z_axis c_axis =
     (case canonical_perm (ndim arr) z_axis c_axis of
        Inl e \<Rightarrow> Inl e
      | Inr (perm, cp) \<Rightarrow>
          (case transpose_nd arr perm of
             Inl e \<Rightarrow> Inl e
           | Inr arr_can \<Rightarrow> Inr (arr_can, cp)))"

section \<open>Z resampling: \<^verbatim>\<open>resample_z_isotropic\<close>\<close>

text \<open>
  The aspect ratio is a Python float. A finite float is a rational number and is read as
  the rational it denotes; products and quotients are taken exactly. Python's \<^verbatim>\<open>round\<close>
  and NumPy's \<^verbatim>\<open>rint\<close> both round to the nearest integer, a tie to the even one.
\<close>

definition py_round :: "rat \<Rightarrow> int" where
  "py_round q =
     (let f = \<lfloor>q\<rfloor>; d = q - of_int f in
      if d < 1 / 2 then f
      else if d > 1 / 2 then f + 1
      else if even f then f else f + 1)"

text \<open>
  \<^verbatim>\<open>np.linspace(0, Z - 1, newZ)\<close>: \<open>newZ\<close> samples from \<open>0\<close> to \<open>Z - 1\<close>, both ends
  included; a single sample is the start.
\<close>

definition linspace :: "int \<Rightarrow> nat \<Rightarrow> rat list" where
  "linspace stop num =
     (if num = 1 then [0]
      else map (\<lambda>i. of_nat i * (of_int stop / of_nat (num - 1))) [0..<num])"

text \<open>\<^verbatim>\<open>np.clip(x, lo, hi)\<close> is \<^verbatim>\<open>minimum(maximum(x, lo), hi)\<close>.\<close>

definition clip :: "int \<Rightarrow> int \<Rightarrow> int \<Rightarrow> int" where
  "clip x lo hi = min (max x lo) hi"

text \<open>
  \<^verbatim>\<open>src_idx = np.clip(np.rint(np.linspace(0, Z - 1, newZ)).astype(int), 0, Z - 1)\<close>
\<close>

definition src_idx :: "nat \<Rightarrow> nat \<Rightarrow> int list" where
  "src_idx Z newZ = map (\<lambda>q. clip (py_round q) 0 (int Z - 1)) (linspace (int Z - 1) newZ)"

text \<open>
  The \<open>k\<close>-th plane along axis 0 of an array whose other axes hold \<open>P\<close> elements, and
  \<^verbatim>\<open>arr[idx, ...]\<close> for a list of integers: the planes at those indices, in order. An
  index \<open>i\<close> must lie in \<open>[-Z, Z)\<close> and a negative one counts from the end.
\<close>

definition plane :: "nat \<Rightarrow> 'a list \<Rightarrow> nat \<Rightarrow> 'a list" where
  "plane P xs k = take P (drop (k * P) xs)"

definition take_planes :: "'a ndarray \<Rightarrow> int list \<Rightarrow> error + 'a ndarray" where
  "take_planes arr idx =
     (case shape arr of
        [] \<Rightarrow> Inl IndexError
      | Z # rest \<Rightarrow>
          (case those (map (normalize_axis Z) idx) of
             None \<Rightarrow> Inl IndexError
           | Some ks \<Rightarrow>
               Inr \<lparr> shape = length ks # rest,
                     data = concat (map (plane (prod_list rest) (data arr)) ks) \<rparr>))"

text \<open>Lines 199 to 202: nearest neighbour along Z.\<close>

definition nearest_z :: "'a ndarray \<Rightarrow> nat \<Rightarrow> nat \<Rightarrow> error + 'a ndarray" where
  "nearest_z arr_can Z newZ = take_planes arr_can (src_idx Z newZ)"

text \<open>
  \<^verbatim>\<open>scipy.ndimage.zoom\<close> is outside the repository: it is a parameter \<open>zoom\<close> that takes
  the array and the zoom factors and gives the interpolated array, or \<open>None\<close> when the
  import or the call raises. The quotient \<^verbatim>\<open>newZ / Z\<close> stands inside the \<^verbatim>\<open>try\<close>, so a
  division by zero falls back to nearest neighbour as well.

  \<^verbatim>\<open>
  def resample_z_isotropic(arr_can, z_aspect, mode="labels"):
      z_aspect = float(z_aspect)
      Z = arr_can.shape[0]
      newZ = max(1, int(round(Z * z_aspect)))
      if newZ == Z:
          return arr_can
      if mode == "image":
          try:
              from scipy.ndimage import zoom
              factors = [newZ / Z] + [1.0] * (arr_can.ndim - 1)
              return zoom(arr_can, factors, order=1, prefilter=False)
          except Exception:
              pass  # fall back to nearest
      src_idx = np.rint(np.linspace(0, Z - 1, newZ)).astype(int)
      src_idx = np.clip(src_idx, 0, Z - 1)
      return arr_can[src_idx, ...]
  \<close>
\<close>

type_synonym 'a zoom = "'a ndarray \<Rightarrow> rat list \<Rightarrow> 'a ndarray option"

definition new_z :: "nat \<Rightarrow> rat \<Rightarrow> int" where
  "new_z Z z_aspect = max 1 (py_round (of_nat Z * z_aspect))"

definition try_zoom :: "'a zoom \<Rightarrow> 'a ndarray \<Rightarrow> nat \<Rightarrow> int \<Rightarrow> 'a ndarray option" where
  "try_zoom zoom arr_can Z newZ =
     (if Z = 0 then None
      else zoom arr_can ((of_int newZ / of_nat Z) # replicate (ndim arr_can - 1) 1))"

definition resample_z_isotropic ::
  "'a zoom \<Rightarrow> 'a ndarray \<Rightarrow> rat \<Rightarrow> string \<Rightarrow> error + 'a ndarray" where
  "resample_z_isotropic zoom arr_can z_aspect mode =
     (case shape arr_can of
        [] \<Rightarrow> Inl IndexError
      | Z # rest \<Rightarrow>
          (let newZ = new_z Z z_aspect in
           if newZ = int Z then Inr arr_can
           else if mode = ''image'' then
             (case try_zoom zoom arr_can Z newZ of
                Some out \<Rightarrow> Inr out
              | None \<Rightarrow> nearest_z arr_can Z (nat newZ))
           else nearest_z arr_can Z (nat newZ)))"

section \<open>Slice export: \<^verbatim>\<open>save_isotropic_slices\<close>\<close>

text \<open>
  The function reads the file, resolves the axes, canonicalizes, resamples and writes
  the tiles. \<^verbatim>\<open>imread\<close>, \<^verbatim>\<open>imwrite\<close>, \<^verbatim>\<open>mkdir\<close> and the progress callback are
  collaborators outside the repository. The decoded array is an argument of the model;
  each call of \<^verbatim>\<open>mkdir\<close>, \<^verbatim>\<open>imwrite\<close> and \<^verbatim>\<open>progress_cb\<close> is an event, and the model
  returns the events in the order the calls are made, for a run in which \<^verbatim>\<open>mkdir\<close> and
  \<^verbatim>\<open>imwrite\<close> return normally. An exception of the callback is caught by \<^verbatim>\<open>report\<close>, so
  the callback cannot change the run.
\<close>

type_synonym path = "string list"

datatype 'a event =
    is_Mkdir: Mkdir (mk_path: path)
  | is_Imwrite: Imwrite (w_file: path) (w_tile: "'a ndarray") (w_compression: string)
      (w_planarconfig: "string option") (w_axes: string)
      \<comment> \<open>file, tile, \<^verbatim>\<open>compression\<close>, \<^verbatim>\<open>planarconfig\<close> when given, \<^verbatim>\<open>metadata["axes"]\<close>\<close>
  | is_ProgressCb: ProgressCb (cb_done: nat) (cb_total: nat) (cb_note: string)
      \<comment> \<open>\<^verbatim>\<open>progress_cb(done, total, note)\<close>\<close>

record 'a run_state =
  done_count :: nat
  trace :: "'a event list"

text \<open>
  \<^verbatim>\<open>
  def report(note):
      nonlocal done
      done += 1
      if progress_cb:
          try: progress_cb(done, total, note)
          except Exception: pass
  \<close>
\<close>

definition report :: "bool \<Rightarrow> nat \<Rightarrow> string \<Rightarrow> 'a run_state \<Rightarrow> 'a run_state" where
  "report progress_cb total_n note st =
     (let d = done_count st + 1 in
      \<lparr> done_count = d,
        trace = trace st @ (if progress_cb then [ProgressCb d total_n note] else []) \<rparr>)"

text \<open>
  \<^verbatim>\<open>if not (skip_empty and np.max(tile) == 0): imwrite(...)\<close>. The maximum is only taken
  when \<^verbatim>\<open>skip_empty\<close> is set, and \<^verbatim>\<open>np.max\<close> raises on an array without elements.
\<close>

definition write_tile ::
  "bool \<Rightarrow> 'a::{linorder,zero} ndarray \<Rightarrow> 'a event \<Rightarrow> 'a run_state \<Rightarrow> error + 'a run_state" where
  "write_tile skip_empty tile call st =
     (if skip_empty then
        (if data tile = [] then Inl EmptyMax
         else if Max (set (data tile)) = 0 then Inr st
         else Inr (st\<lparr> trace := trace st @ [call] \<rparr>))
      else Inr (st\<lparr> trace := trace st @ [call] \<rparr>))"

text \<open>Decimal digits of a number, and the format \<^verbatim>\<open>{n:04d}\<close>.\<close>

fun str_nat :: "nat \<Rightarrow> string" where
  "str_nat n =
     (if n < 10 then [char_of (48 + n)]
      else str_nat (n div 10) @ [char_of (48 + n mod 10)])"

declare str_nat.simps [simp del]

text \<open>\<^verbatim>\<open>str(i)\<close> of an integer: the text of a signed decimal number.\<close>

definition py_str :: "int \<Rightarrow> string" where
  "py_str i = (if i < 0 then CHR ''-'' # str_nat (nat (- i)) else str_nat (nat i))"

definition fmt04d :: "nat \<Rightarrow> string" where
  "fmt04d n = replicate (4 - length (str_nat n)) (CHR ''0'') @ str_nat n"

text \<open>
  Tiles. \<^verbatim>\<open>arr[z]\<close> is plane \<open>z\<close> along axis 0; \<^verbatim>\<open>arr[:, y, :]\<close> and its relatives fix one
  axis \<open>k\<close> at \<open>t\<close> and keep the others; \<^verbatim>\<open>np.swapaxes(a, 0, 1)\<close> exchanges the first
  two axes.
\<close>

definition index0 :: "'a ndarray \<Rightarrow> nat \<Rightarrow> 'a ndarray" where
  "index0 arr z =
     \<lparr> shape = tl (shape arr), data = plane (prod_list (tl (shape arr))) (data arr) z \<rparr>"

definition fix_axis :: "'a ndarray \<Rightarrow> nat \<Rightarrow> nat \<Rightarrow> 'a ndarray" where
  "fix_axis arr k t =
     (let sh = take k (shape arr) @ drop (Suc k) (shape arr) in
      \<lparr> shape = sh,
        data = map (\<lambda>idx. item arr (take k idx @ [t] @ drop k idx)) (indices sh) \<rparr>)"

definition swapaxes01 :: "'a ndarray \<Rightarrow> 'a ndarray" where
  "swapaxes01 arr = permuted arr ([1, 0] @ [2..<ndim arr])"

definition pc_for :: "bool \<Rightarrow> string" where
  "pc_for before_xy = (if before_xy then ''separate'' else ''contig'')"

definition compression :: string where
  "compression = ''deflate''"

text \<open>
  The three loop bodies, lines 295 to 349. Each picks its tile and its \<^verbatim>\<open>imwrite\<close> call
  by \<^verbatim>\<open>C is None\<close>, \<^verbatim>\<open>cpos == "before"\<close> or neither, writes unless the tile is skipped,
  and reports.
\<close>

definition tile_file :: "path \<Rightarrow> string \<Rightarrow> string \<Rightarrow> nat \<Rightarrow> path" where
  "tile_file out_base stem dir n = out_base @ [dir, stem @ ''_'' @ dir @ ''_'' @ fmt04d n @ ''.tif'']"

definition xy_tile :: "'a ndarray \<Rightarrow> nat \<Rightarrow> 'a ndarray" where
  "xy_tile arr_iso z = index0 arr_iso z"

definition zx_tile :: "'a ndarray \<Rightarrow> cpos option \<Rightarrow> nat option \<Rightarrow> nat \<Rightarrow> 'a ndarray" where
  "zx_tile arr_iso cp C y =
     (if C = None then fix_axis arr_iso 1 y
      else if cp = Some Before then swapaxes01 (fix_axis arr_iso 2 y)
      else fix_axis arr_iso 1 y)"

definition zy_tile :: "'a ndarray \<Rightarrow> cpos option \<Rightarrow> nat option \<Rightarrow> nat \<Rightarrow> 'a ndarray" where
  "zy_tile arr_iso cp C x =
     (if C = None then fix_axis arr_iso 2 x
      else if cp = Some Before then swapaxes01 (fix_axis arr_iso 3 x)
      else fix_axis arr_iso 2 x)"

definition imwrite_call ::
  "path \<Rightarrow> 'a ndarray \<Rightarrow> cpos option \<Rightarrow> nat option \<Rightarrow> string \<Rightarrow> string \<Rightarrow> string \<Rightarrow> 'a event" where
  "imwrite_call file tile cp C axes_none axes_before axes_after =
     (if C = None then Imwrite file tile compression None axes_none
      else if cp = Some Before then Imwrite file tile compression (Some (pc_for True)) axes_before
      else Imwrite file tile compression (Some (pc_for False)) axes_after)"

definition xy_call ::
  "'a ndarray \<Rightarrow> cpos option \<Rightarrow> nat option \<Rightarrow> path \<Rightarrow> string \<Rightarrow> nat \<Rightarrow> 'a event" where
  "xy_call arr_iso cp C out_base stem z =
     imwrite_call (tile_file out_base stem ''xy'' z) (xy_tile arr_iso z) cp C ''YX'' ''CYX'' ''YXC''"

definition zx_call ::
  "'a ndarray \<Rightarrow> cpos option \<Rightarrow> nat option \<Rightarrow> path \<Rightarrow> string \<Rightarrow> nat \<Rightarrow> 'a event" where
  "zx_call arr_iso cp C out_base stem y =
     imwrite_call (tile_file out_base stem ''zx'' y) (zx_tile arr_iso cp C y) cp C ''ZX'' ''CZX'' ''ZXC''"

definition zy_call ::
  "'a ndarray \<Rightarrow> cpos option \<Rightarrow> nat option \<Rightarrow> path \<Rightarrow> string \<Rightarrow> nat \<Rightarrow> 'a event" where
  "zy_call arr_iso cp C out_base stem x =
     imwrite_call (tile_file out_base stem ''zy'' x) (zy_tile arr_iso cp C x) cp C ''ZY'' ''CZY'' ''ZYC''"

text \<open>The note \<^verbatim>\<open>f"xy {z+1}/{Z}"\<close>.\<close>

definition note_of :: "string \<Rightarrow> nat \<Rightarrow> nat \<Rightarrow> string" where
  "note_of dir k n = dir @ '' '' @ str_nat (k + 1) @ ''/'' @ str_nat n"

definition loop_body ::
  "bool \<Rightarrow> bool \<Rightarrow> nat \<Rightarrow> (nat \<Rightarrow> 'a::{linorder,zero} ndarray) \<Rightarrow> (nat \<Rightarrow> 'a event) \<Rightarrow> (nat \<Rightarrow> string)
     \<Rightarrow> nat \<Rightarrow> 'a run_state \<Rightarrow> error + 'a run_state" where
  "loop_body skip_empty progress_cb total_n tile call note k st =
     (case write_tile skip_empty (tile k) (call k) st of
        Inl e \<Rightarrow> Inl e
      | Inr st' \<Rightarrow> Inr (report progress_cb total_n (note k) st'))"

text \<open>\<^verbatim>\<open>for k in range(n): body\<close>, stopping at the first exception.\<close>

fun for_each :: "('k \<Rightarrow> 's \<Rightarrow> error + 's) \<Rightarrow> 'k list \<Rightarrow> 's \<Rightarrow> error + 's" where
  "for_each body [] st = Inr st"
| "for_each body (k # ks) st =
     (case body k st of Inl e \<Rightarrow> Inl e | Inr st' \<Rightarrow> for_each body ks st')"

text \<open>
  Lines 254 to 262: the dimensions \<open>(Z, Y, X, C)\<close> of the resampled array.
  \<^verbatim>\<open>
  if arr_iso.ndim == 3:
      Z, Y, X = arr_iso.shape; C = None
  else:
      if cpos == "before": Z, C, Y, X = arr_iso.shape
      else:                Z, Y, X, C = arr_iso.shape
  \<close>
\<close>

definition unpack_shape ::
  "'a ndarray \<Rightarrow> cpos option \<Rightarrow> error + (nat \<times> nat \<times> nat \<times> nat option)" where
  "unpack_shape arr_iso cp =
     (if ndim arr_iso = 3 then
        (case shape arr_iso of [Z, Y, X] \<Rightarrow> Inr (Z, Y, X, None) | _ \<Rightarrow> Inl UnpackError)
      else if cp = Some Before then
        (case shape arr_iso of [Z, C, Y, X] \<Rightarrow> Inr (Z, Y, X, Some C) | _ \<Rightarrow> Inl UnpackError)
      else
        (case shape arr_iso of [Z, Y, X, C] \<Rightarrow> Inr (Z, Y, X, Some C) | _ \<Rightarrow> Inl UnpackError))"

text \<open>
  Lines 265 to 271. The input is a path, of which only \<^verbatim>\<open>Path(tif_path).stem\<close> is used
  (a single path component, computed by \<^verbatim>\<open>pathlib\<close>), or a \<^verbatim>\<open>BytesIO\<close> buffer, whose
  stem is \<^verbatim>\<open>"stack"\<close>. A path is the list of its components; joining the empty string
  to a path leaves the path as it is.
  \<^verbatim>\<open>
  stem = Path(tif_path).stem if not isinstance(tif_path, io.BytesIO) else "stack"
  if mode == "labels":
      cp_mask_suffix = "_cp_masks"
      image_stem = stem[:-len(cp_mask_suffix)] if stem.endswith(cp_mask_suffix) else stem
      out_base = Path(out_dir) / image_stem
  else:
      out_base = Path(out_dir) / stem
  \<close>
\<close>

datatype tif_source = FromPath string | FromBytes

definition stem_of :: "tif_source \<Rightarrow> string" where
  "stem_of src = (case src of FromPath st \<Rightarrow> st | FromBytes \<Rightarrow> ''stack'')"

definition cp_mask_suffix :: string where
  "cp_mask_suffix = ''_cp_masks''"

definition endswith :: "string \<Rightarrow> string \<Rightarrow> bool" where
  "endswith s suffix =
     (length suffix \<le> length s \<and> drop (length s - length suffix) s = suffix)"

definition path_div :: "path \<Rightarrow> string \<Rightarrow> path" where
  "path_div p s = (if s = [] then p else p @ [s])"

definition out_base_of :: "path \<Rightarrow> string \<Rightarrow> string \<Rightarrow> path" where
  "out_base_of out_dir stem mode =
     (if mode = ''labels'' then
        (let image_stem = (if endswith stem cp_mask_suffix
                           then take (length stem - length cp_mask_suffix) stem else stem)
         in path_div out_dir image_stem)
      else path_div out_dir stem)"

text \<open>The returned dictionary.\<close>

record summary =
  sum_Z :: nat
  sum_Y :: nat
  sum_X :: nat
  sum_C :: "nat option"
  sum_out_dir :: path
  sum_cpos :: "string option"
  sum_mode :: string

text \<open>\<^verbatim>\<open>"none" if C is None else cpos\<close>\<close>

definition cpos_name :: "cpos option \<Rightarrow> nat option \<Rightarrow> string option" where
  "cpos_name cp C =
     (if C = None then Some ''none''
      else (case cp of
              None \<Rightarrow> None
            | Some Before \<Rightarrow> Some ''before''
            | Some After \<Rightarrow> Some ''after''))"

text \<open>Lines 254 to 356: everything after the resampling.\<close>

definition write_slices ::
  "'a::{linorder,zero} ndarray \<Rightarrow> cpos option \<Rightarrow> tif_source \<Rightarrow> path \<Rightarrow> string \<Rightarrow> bool \<Rightarrow> bool
     \<Rightarrow> error + (summary \<times> 'a event list)" where
  "write_slices arr_iso cp tif_path out_dir mode skip_empty progress_cb =
     (case unpack_shape arr_iso cp of
        Inl e \<Rightarrow> Inl e
      | Inr (Z, Y, X, C) \<Rightarrow>
          (let stem = stem_of tif_path;
               out_base = out_base_of out_dir stem mode;
               st0 = \<lparr> done_count = 0,
                       trace = [Mkdir (out_base @ [''xy'']), Mkdir (out_base @ [''zx'']),
                                Mkdir (out_base @ [''zy''])] \<rparr>;
               total_n = Z + Y + X
           in
           case for_each (loop_body skip_empty progress_cb total_n (xy_tile arr_iso)
                            (xy_call arr_iso cp C out_base stem) (\<lambda>z. note_of ''xy'' z Z))
                  [0..<Z] st0 of
             Inl e \<Rightarrow> Inl e
           | Inr st1 \<Rightarrow>
           (case for_each (loop_body skip_empty progress_cb total_n (zx_tile arr_iso cp C)
                            (zx_call arr_iso cp C out_base stem) (\<lambda>y. note_of ''zx'' y Y))
                  [0..<Y] st1 of
             Inl e \<Rightarrow> Inl e
           | Inr st2 \<Rightarrow>
           (case for_each (loop_body skip_empty progress_cb total_n (zy_tile arr_iso cp C)
                            (zy_call arr_iso cp C out_base stem) (\<lambda>x. note_of ''zy'' x X))
                  [0..<X] st2 of
             Inl e \<Rightarrow> Inl e
           | Inr st3 \<Rightarrow>
               Inr (\<lparr> sum_Z = Z, sum_Y = Y, sum_X = X, sum_C = C, sum_out_dir = out_base,
                      sum_cpos = cpos_name cp C, sum_mode = mode \<rparr>,
                    trace st3)))))"

text \<open>Lines 243 to 252: axes, canonical layout, resampling.\<close>

definition load_volume ::
  "'a zoom \<Rightarrow> 'a ndarray \<Rightarrow> rat \<Rightarrow> axis_arg \<Rightarrow> axis_arg \<Rightarrow> string
     \<Rightarrow> error + ('a ndarray \<times> cpos option)" where
  "load_volume zoom arr z_aspect z_axis c_axis mode =
     (case parse_axis z_axis (int (ndim arr)) False of
        Inl e \<Rightarrow> Inl e
      | Inr za \<Rightarrow>
     (case parse_axis c_axis (int (ndim arr)) True of
        Inl e \<Rightarrow> Inl e
      | Inr ca \<Rightarrow>
     (case za of
        None \<Rightarrow> Inl TypeError
      | Some z \<Rightarrow>
     (case canonicalize_preserve_c_side arr z ca of
        Inl e \<Rightarrow> Inl e
      | Inr (arr_can, cp) \<Rightarrow>
     (case resample_z_isotropic zoom arr_can z_aspect mode of
        Inl e \<Rightarrow> Inl e
      | Inr arr_iso \<Rightarrow> Inr (arr_iso, cp))))))"

definition save_isotropic_slices ::
  "'a::{linorder,zero} zoom \<Rightarrow> 'a ndarray \<Rightarrow> tif_source \<Rightarrow> path \<Rightarrow> rat \<Rightarrow> axis_arg \<Rightarrow> axis_arg
     \<Rightarrow> string \<Rightarrow> bool \<Rightarrow> bool \<Rightarrow> error + (summary \<times> 'a event list)" where
  "save_isotropic_slices zoom arr tif_path out_dir z_aspect z_axis c_axis mode skip_empty progress_cb =
     (case load_volume zoom arr z_aspect z_axis c_axis mode of
        Inl e \<Rightarrow> Inl e
      | Inr (arr_iso, cp) \<Rightarrow>
          write_slices arr_iso cp tif_path out_dir mode skip_empty progress_cb)"

section \<open>Events of one tile\<close>

text \<open>
  What one pass through a loop body adds to the trace when \<open>d\<close> tiles are done
  already: the \<^verbatim>\<open>imwrite\<close> call unless the tile is skipped, then the progress call
  with \<open>d + 1\<close> when a callback is given. The properties of the export are stated with
  it.
\<close>

definition tile_events ::
  "bool \<Rightarrow> bool \<Rightarrow> nat \<Rightarrow> 'a::{linorder,zero} ndarray \<Rightarrow> 'a event \<Rightarrow> string \<Rightarrow> nat
     \<Rightarrow> 'a event list" where
  "tile_events skip_empty progress_cb total_n tile call note d =
     (if skip_empty \<and> Max (set (data tile)) = 0 then [] else [call]) @
     (if progress_cb then [ProgressCb (d + 1) total_n note] else [])"

section \<open>Volumes of the data model and sample inputs\<close>

text \<open>
  A canonical volume of the data model: three or four axes, every size positive, and as
  many elements as the shape announces.
\<close>

definition canonical_volume :: "'a ndarray \<Rightarrow> bool" where
  "canonical_volume arr =
     (wf_array arr \<and> (ndim arr = 3 \<or> ndim arr = 4) \<and> 0 \<notin> set (shape arr))"

text \<open>SciPy is not installed: every attempt to interpolate raises.\<close>

definition no_zoom :: "'a zoom" where
  "no_zoom arr factors = None"

definition vol_a :: "int ndarray" where
  "vol_a = \<lparr> shape = [3, 1, 2], data = [1, 2, 3, 4, 5, 6] \<rparr>"

definition vol_between :: "int ndarray" where
  "vol_between = \<lparr> shape = [1, 2, 2, 1], data = [1, 2, 3, 4] \<rparr>"

definition vol_c :: "int ndarray" where
  "vol_c = \<lparr> shape = [2, 3, 1], data = [1, 2, 3, 4, 5, 6] \<rparr>"

definition vol_z :: "int ndarray" where
  "vol_z = \<lparr> shape = [2, 1, 2], data = [0, 0, 5, 7] \<rparr>"

section \<open>Properties\<close>




lemma those_map_Some:
  "(\<And>x. x \<in> set xs \<Longrightarrow> f x = Some (g x)) \<Longrightarrow> those (map f xs) = Some (map g xs)"
  by (induction xs) auto



lemma length_src_idx: "length (src_idx Z n) = n"
  by (simp add: src_idx_def linspace_def)

lemma src_idx_range: "0 < Z \<Longrightarrow> i \<in> set (src_idx Z n) \<Longrightarrow> 0 \<le> i \<and> i < int Z"
  by (auto simp: src_idx_def clip_def)

lemma nearest_z_ok:
  assumes "shape arr = Z # rest" "0 < Z"
  shows "nearest_z arr Z n =
     Inr \<lparr> shape = n # rest,
           data = concat (map (plane (prod_list rest) (data arr)) (map nat (src_idx Z n))) \<rparr>"
proof -
  have "those (map (normalize_axis Z) (src_idx Z n)) = Some (map nat (src_idx Z n))"
  proof (rule those_map_Some)
    fix x assume "x \<in> set (src_idx Z n)"
    then have "0 \<le> x \<and> x < int Z" using src_idx_range[OF assms(2)] by blast
    then show "normalize_axis Z x = Some (nat x)" by (simp add: normalize_axis_def)
  qed
  then show ?thesis
    using assms by (simp add: nearest_z_def take_planes_def length_src_idx)
qed

lemma set_plane_subset: "set (plane P xs k) \<subseteq> set xs"
  unfolding plane_def by (meson set_take_subset set_drop_subset subset_trans)

lemma length_plane: "(k + 1) * P \<le> length xs \<Longrightarrow> length (plane P xs k) = P"
  by (simp add: plane_def)

lemma plane_concat:
  "\<forall>ys \<in> set yss. length ys = P \<Longrightarrow> k < length yss \<Longrightarrow> plane P (concat yss) k = yss ! k"
proof (induction yss arbitrary: k)
  case Nil
  then show ?case by simp
next
  case (Cons a yss)
  show ?case
  proof (cases k)
    case 0
    then show ?thesis using Cons.prems by (simp add: plane_def)
  next
    case (Suc j)
    then have "plane P (concat (a # yss)) k = plane P (concat yss) j"
      using Cons.prems by (simp add: plane_def)
    then show ?thesis using Cons Suc by simp
  qed
qed

lemma resample_same:
  "shape arr = Z # rest \<Longrightarrow> new_z Z aspect = int Z \<Longrightarrow>
   resample_z_isotropic zoom arr aspect mode = Inr arr"
  by (simp add: resample_z_isotropic_def)




text \<open>
  Claim C3. For a four-dimensional array whose resolved Z and channel axes differ, with
  \<open>y_ax\<close> and \<open>x_ax\<close> the two remaining axes in their original order: when the channel
  axis lies strictly between them, canonicalization fails with \<open>ChannelBetweenXY\<close>.
\<close>
theorem channel_between_rejected:
  assumes "ndim arr = 4"
    and "norm_neg z_axis 4 \<noteq> norm_neg c_axis 4"
    and "filter (\<lambda>i. i \<notin> {norm_neg z_axis 4, norm_neg c_axis 4}) (py_range 4) = [y_ax, x_ax]"
    and "y_ax < norm_neg c_axis 4" and "norm_neg c_axis 4 < x_ax"
  shows "canonicalize_preserve_c_side arr z_axis (Some c_axis) = Inl ChannelBetweenXY"
  using assms by (simp add: canonicalize_preserve_c_side_def canonical_perm_def Let_def)


lemma canonical_vol_a: "canonical_volume vol_a"
  by (simp add: canonical_volume_def vol_a_def wf_array_def ndim_def)

lemma plane_in_range:
  assumes "length xs = Z * P" "j < Z"
  shows "length (plane P xs j) = P"
proof -
  have "j + 1 \<le> Z" using assms(2) by simp
  then have "(j + 1) * P \<le> Z * P" by (rule mult_le_mono1)
  then show ?thesis using assms(1) by (simp add: length_plane)
qed

lemma nearest_z_planes:
  assumes "wf_array arr" "shape arr = Z # rest" "0 < Z"
  shows "\<exists>out. nearest_z arr Z n = Inr out \<and> shape out = n # rest \<and>
           set (data out) \<subseteq> set (data arr) \<and>
           (\<forall>k<n. \<exists>j<Z. plane (prod_list rest) (data out) k = plane (prod_list rest) (data arr) j)"
proof -
  let ?P = "prod_list rest"
  let ?ks = "map nat (src_idx Z n)"
  let ?yss = "map (plane ?P (data arr)) ?ks"
  have len: "length (data arr) = Z * ?P"
    using assms(1,2) by (simp add: wf_array_def)
  have ks: "\<And>j. j \<in> set ?ks \<Longrightarrow> j < Z"
    using src_idx_range[OF assms(3)] by fastforce
  have eq: "\<forall>ys \<in> set ?yss. length ys = ?P"
    using ks plane_in_range[OF len] by auto
  have sub: "set (concat ?yss) \<subseteq> set (data arr)"
    using set_plane_subset by fastforce
  have pl: "\<exists>j<Z. plane ?P (concat ?yss) k = plane ?P (data arr) j" if "k < n" for k
  proof -
    have k: "k < length ?yss" using that by (simp add: length_src_idx)
    have "plane ?P (concat ?yss) k = ?yss ! k" by (rule plane_concat[OF eq k])
    also have "\<dots> = plane ?P (data arr) (?ks ! k)" using k by simp
    finally show ?thesis using ks k by (metis length_map nth_mem)
  qed
  show ?thesis
    using nearest_z_ok[OF assms(2,3), of n] sub pl by simp
qed

text \<open>
  Claim C1. For a canonical volume with \<open>Z\<close> planes and every target size \<open>newZ\<close>,
  nearest-neighbour resampling returns a volume of \<open>newZ\<close> planes whose elements all
  occur in the input, and each of whose planes is a copy of an input plane. The same
  holds for \<^verbatim>\<open>resample_z_isotropic\<close> in every mode but \<^verbatim>\<open>"image"\<close>, and in mode
  \<^verbatim>\<open>"image"\<close> whenever the interpolation attempt fails.
\<close>
theorem nearest_preserves_values:
  assumes "canonical_volume arr" and "shape arr = Z # rest"
  shows "(\<exists>out. nearest_z arr Z newZ = Inr out \<and> shape out = newZ # rest \<and>
            set (data out) \<subseteq> set (data arr) \<and>
            (\<forall>k<newZ. \<exists>j<Z. plane (prod_list rest) (data out) k
                              = plane (prod_list rest) (data arr) j)) \<and>
         ((mode = ''image'' \<longrightarrow> try_zoom zoom arr Z (new_z Z aspect) = None) \<longrightarrow>
          (\<exists>out n. resample_z_isotropic zoom arr aspect mode = Inr out \<and> shape out = n # rest \<and>
             set (data out) \<subseteq> set (data arr) \<and>
             (\<forall>k<n. \<exists>j<Z. plane (prod_list rest) (data out) k
                            = plane (prod_list rest) (data arr) j)))"
proof -
  have wf: "wf_array arr" and Z: "0 < Z"
    using assms by (auto simp: canonical_volume_def)
  note nz = nearest_z_planes[OF wf assms(2) Z]
  have "\<exists>out n. resample_z_isotropic zoom arr aspect mode = Inr out \<and> shape out = n # rest \<and>
             set (data out) \<subseteq> set (data arr) \<and>
             (\<forall>k<n. \<exists>j<Z. plane (prod_list rest) (data out) k
                            = plane (prod_list rest) (data arr) j)"
    if fb: "mode = ''image'' \<longrightarrow> try_zoom zoom arr Z (new_z Z aspect) = None"
  proof (cases "new_z Z aspect = int Z")
    case True
    then have "resample_z_isotropic zoom arr aspect mode = Inr arr"
      using assms(2) by (rule resample_same[rotated])
    then show ?thesis using assms(2) by auto
  next
    case False
    then have "resample_z_isotropic zoom arr aspect mode = nearest_z arr Z (nat (new_z Z aspect))"
      using assms(2) fb by (cases "mode = ''image''") (simp_all add: resample_z_isotropic_def Let_def)
    then show ?thesis using nz[of "nat (new_z Z aspect)"] by auto
  qed
  then show ?thesis using nz[of newZ] by blast
qed

theorem nearest_preserves_values_witness:
  "\<exists>out. nearest_z vol_a 3 6 = Inr out \<and> set (data out) \<subseteq> set (data vol_a)"
proof -
  have sh: "shape vol_a = 3 # [1, 2]" by (simp add: vol_a_def)
  show ?thesis
    using nearest_preserves_values[OF canonical_vol_a sh, of 6 "''labels''" no_zoom 2]
    by blast
qed










theorem channel_between_rejected_witness:
  "canonicalize_preserve_c_side vol_between 0 (Some 2) = Inl ChannelBetweenXY"
proof -
  have "filter (\<lambda>i. i \<notin> {norm_neg 0 4, norm_neg 2 4}) (py_range 4) = [1, 3]"
    by (simp add: norm_neg_def py_range_def upt_rec)
  then show ?thesis
    using channel_between_rejected[of vol_between 0 2 1 3]
    by (simp add: ndim_def vol_between_def norm_neg_def)
qed



lemma is_digit_char_of: "(k::nat) < 10 \<Longrightarrow> is_digit (char_of (48 + k))"
  by (simp add: is_digit_def Let_def)

lemma digit_val_char_of: "(k::nat) < 10 \<Longrightarrow> digit_val (char_of (48 + k)) = k"
  by (simp add: digit_val_def)

lemma str_nat_digits: "c \<in> set (str_nat n) \<Longrightarrow> is_digit c"
proof (induction n arbitrary: c rule: str_nat.induct)
  case (1 n)
  show ?case
  proof (cases "n < 10")
    case True
    then show ?thesis using "1.prems" by (simp add: str_nat.simps[of n] is_digit_char_of)
  next
    case False
    then show ?thesis
      using "1.prems" "1.IH" by (auto simp: str_nat.simps[of n] is_digit_char_of)
  qed
qed

lemma str_nat_nonempty: "str_nat n \<noteq> []"
  by (simp add: str_nat.simps[of n])

lemma parse_digits_all:
  "\<forall>c \<in> set ds. is_digit c \<Longrightarrow>
   parse_digits acc ds = Some (foldl (\<lambda>a c. a * 10 + digit_val c) acc ds)"
  by (induction ds arbitrary: acc) auto

lemma foldl_str_nat: "foldl (\<lambda>a c. a * 10 + digit_val c) 0 (str_nat n) = n"
proof (induction n rule: str_nat.induct)
  case (1 n)
  show ?case
  proof (cases "n < 10")
    case True
    then show ?thesis by (simp add: str_nat.simps[of n] digit_val_char_of)
  next
    case False
    then show ?thesis
      using "1.IH" by (simp add: str_nat.simps[of n] digit_val_char_of)
  qed
qed

lemma parse_unsigned_str_nat: "parse_unsigned (str_nat n) = Some n"
proof -
  obtain c cs where cs: "str_nat n = c # cs"
    using str_nat_nonempty by (cases "str_nat n") auto
  have dig: "\<forall>d \<in> set (c # cs). is_digit d"
    using str_nat_digits[of _ n] cs by auto
  have "foldl (\<lambda>a c. a * 10 + digit_val c) (digit_val c) cs = n"
    using foldl_str_nat[of n] cs by simp
  then show ?thesis
    using cs dig by (simp add: parse_unsigned_def parse_digits_all)
qed

lemma digit_not_sign: "is_digit c \<Longrightarrow> c \<noteq> CHR ''-'' \<and> c \<noteq> CHR ''+''"
  by (auto simp: is_digit_def)

lemma py_int_py_str: "py_int (py_str i) = Some i"
proof (cases "i < 0")
  case True
  then show ?thesis by (simp add: py_str_def py_int_def parse_unsigned_str_nat)
next
  case False
  obtain c cs where cs: "str_nat (nat i) = c # cs"
    using str_nat_nonempty by (cases "str_nat (nat i)") auto
  have "is_digit c" using str_nat_digits[of c "nat i"] cs by simp
  then have "c \<noteq> CHR ''-''" "c \<noteq> CHR ''+''" using digit_not_sign by auto
  moreover have "parse_unsigned (c # cs) = Some (nat i)"
    using parse_unsigned_str_nat[of "nat i"] cs by simp
  ultimately show ?thesis using False cs by (simp add: py_str_def py_int_def)
qed

lemma strip_id: "\<forall>c \<in> set s. \<not> is_space c \<Longrightarrow> strip s = s"
proof -
  assume a: "\<forall>c \<in> set s. \<not> is_space c"
  have dw: "dropWhile is_space t = t" if "set t = set s" for t
    using a that by (cases t) auto
  have "dropWhile is_space s = s" "dropWhile is_space (rev s) = rev s"
    by (simp_all add: dw)
  then show ?thesis by (simp add: strip_def)
qed

lemma lower_id: "\<forall>c \<in> set s. lower_char c = c \<Longrightarrow> lower s = s"
  by (simp add: lower_def map_idI)

lemma py_str_chars: "c \<in> set (py_str i) \<Longrightarrow> \<not> is_space c \<and> lower_char c = c"
proof -
  assume "c \<in> set (py_str i)"
  then have "c = CHR ''-'' \<or> is_digit c"
    using str_nat_digits by (auto simp: py_str_def split: if_splits)
  then show ?thesis
    by (auto simp: is_digit_def is_space_def lower_char_def Let_def)
qed

lemma lower_strip_py_str: "lower (strip (py_str i)) = py_str i"
  using py_str_chars by (simp add: strip_id lower_id)

lemma py_int_words:
  "py_int ''none'' = None" "py_int ''no'' = None" "py_int ''disabled'' = None"
  "py_int ''first'' = None" "py_int ''last'' = None"
  "py_int ''0'' = Some 0" "py_int ''-1'' = Some (- 1)"
  by (simp_all add: py_int_def parse_unsigned_def is_digit_def digit_val_def)

lemma str_nat_small: "str_nat 0 = ''0''" "str_nat (Suc 0) = ''1''"
  by code_simp+

lemma py_str_not_word:
  "py_str i \<notin> {''none'', ''no'', ''disabled'', ''first'', ''last''}"
  "py_str i = ''0'' \<longleftrightarrow> i = 0" "py_str i = ''-1'' \<longleftrightarrow> i = - 1"
  using py_int_py_str[of i] py_int_words
  by (auto simp: py_str_def str_nat_small)

lemma lower_strip_words:
  "lower (strip ''first'') = ''first''" "lower (strip ''last'') = ''last''"
  "lower (strip ''none'') = ''none''" "lower (strip ''no'') = ''no''"
  "lower (strip ''disabled'') = ''disabled''"
  by (simp_all add: lower_def strip_def is_space_def lower_char_def)

text \<open>
  Claim C5, as amended. For \<open>ndim \<ge> 1\<close>: \<^verbatim>\<open>"first"\<close> gives \<open>0\<close> and \<^verbatim>\<open>"last"\<close> gives
  \<open>ndim - 1\<close>; the text of a signed integer \<open>i\<close> is checked against \<open>[-ndim, ndim)\<close>
  and returned as it is, a negative index included, except \<^verbatim>\<open>"-1"\<close>, which is read
  like \<^verbatim>\<open>"last"\<close>; an integer argument is checked the same way; a string that is no
  integer and no keyword fails with \<open>InvalidAxisSpec\<close>; \<^verbatim>\<open>"none"\<close>, \<^verbatim>\<open>"no"\<close> and
  \<^verbatim>\<open>"disabled"\<close> give \<^verbatim>\<open>None\<close> when \<^verbatim>\<open>allow_none\<close> is set and fail otherwise.
\<close>
theorem parse_axis_rules:
  assumes "1 \<le> nd"
  shows "parse_axis (AStr ''first'') nd allow_none = Inr (Some 0) \<and>
         parse_axis (AStr ''last'') nd allow_none = Inr (Some (nd - 1)) \<and>
         parse_axis (AStr (py_str i)) nd allow_none =
           (if i = - 1 then Inr (Some (nd - 1))
            else if - nd \<le> i \<and> i < nd then Inr (Some i)
            else Inl InvalidAxisSpec) \<and>
         parse_axis (AInt i) nd allow_none =
           (if - nd \<le> i \<and> i < nd then Inr (Some i) else Inl AxisOutOfBounds) \<and>
         (py_int (lower (strip s)) = None \<and>
          lower (strip s) \<notin> {''first'', ''last'', ''none'', ''no'', ''disabled''} \<longrightarrow>
            parse_axis (AStr s) nd allow_none = Inl InvalidAxisSpec) \<and>
         (w \<in> {''none'', ''no'', ''disabled''} \<longrightarrow>
            parse_axis (AStr w) nd True = Inr None \<and>
            parse_axis (AStr w) nd False = Inl InvalidAxisSpec)"
proof -
  have first: "parse_axis (AStr ''first'') nd allow_none = Inr (Some 0)"
    by (simp add: parse_axis_def lower_strip_words)
  have last: "parse_axis (AStr ''last'') nd allow_none = Inr (Some (nd - 1))"
    by (simp add: parse_axis_def lower_strip_words)
  have int_text: "parse_axis (AStr (py_str i)) nd allow_none =
           (if i = - 1 then Inr (Some (nd - 1))
            else if - nd \<le> i \<and> i < nd then Inr (Some i)
            else Inl InvalidAxisSpec)"
    using assms py_str_not_word[of i]
    by (auto simp: parse_axis_def lower_strip_py_str py_int_py_str)
  have int_arg: "parse_axis (AInt i) nd allow_none =
           (if - nd \<le> i \<and> i < nd then Inr (Some i) else Inl AxisOutOfBounds)"
    by (simp add: parse_axis_def)
  have bad: "parse_axis (AStr s) nd allow_none = Inl InvalidAxisSpec"
    if "py_int (lower (strip s)) = None"
      and "lower (strip s) \<notin> {''first'', ''last'', ''none'', ''no'', ''disabled''}"
    using that py_int_words by (auto simp: parse_axis_def Let_def)
  have none: "parse_axis (AStr w) nd True = Inr None \<and>
            parse_axis (AStr w) nd False = Inl InvalidAxisSpec"
    if "w \<in> {''none'', ''no'', ''disabled''}"
    using that py_int_words by (auto simp: parse_axis_def lower_strip_words)
  show ?thesis using first last int_text int_arg bad none by blast
qed

theorem parse_axis_rules_witness:
  "parse_axis (AStr (py_str (- 2))) 3 False = Inr (Some (- 2)) \<and>
   parse_axis (AStr ''none'') 3 True = Inr None \<and>
   parse_axis (AStr ''none'') 3 False = Inl InvalidAxisSpec"
  using parse_axis_rules[of 3 False "- 2" "''zx''" "''none''"] by simp

text \<open>
  Claim C5 as stated fails: the token \<^verbatim>\<open>"-2"\<close> with \<open>ndim = 3\<close> is returned as \<open>-2\<close>,
  not normalized to \<open>-2 + 3\<close>.
\<close>
theorem parse_axis_normalizes_counterexample:
  "parse_axis (AStr ''-2'') 3 False = Inr (Some (- 2)) \<and>
   parse_axis (AStr ''-2'') 3 False \<noteq> Inr (Some (- 2 + 3))"
  by (simp add: parse_axis_def lower_def strip_def is_space_def lower_char_def
      py_int_def parse_unsigned_def is_digit_def digit_val_def)


lemma length_indices: "length (indices sh) = prod_list sh"
proof (induction sh)
  case Nil
  then show ?case by simp
next
  case (Cons n ns)
  have "length (concat (map (\<lambda>i. map ((#) i) (indices ns)) [0..<n]))
        = sum_list (map (\<lambda>i. length (indices ns)) [0..<n])"
    by (simp add: length_concat comp_def)
  also have "\<dots> = n * length (indices ns)"
    by (simp add: sum_list_triv)
  finally show ?case using Cons.IH by simp
qed

lemma wf_permuted: "wf_array (permuted arr p)"
  by (simp add: wf_array_def permuted_def Let_def length_indices)

lemma those_map_SomeD:
  "those (map f xs) = Some ys \<Longrightarrow> ys = map (\<lambda>x. the (f x)) xs \<and> (\<forall>x \<in> set xs. f x \<noteq> None)"
  by (induction xs arbitrary: ys) (auto split: option.splits)

lemma perm_mset:
  assumes "distinct p" "length p = n" "set p \<subseteq> {0..<n}"
  shows "mset p = mset [0..<n]"
proof -
  have "card (set p) = n" using assms(1,2) by (simp add: distinct_card)
  then have "set p = {0..<n}"
    using assms(3) by (simp add: card_subset_eq)
  then have "set p = set [0..<n]" by simp
  then show ?thesis
    using assms(1) set_eq_iff_mset_eq_distinct[of p "[0..<n]"] by simp
qed

lemma prod_list_perm:
  assumes "distinct p" "length p = length sh" "set p \<subseteq> {0..<length sh}"
  shows "prod_list (map (\<lambda>k. sh ! k) p) = prod_list (sh :: nat list)"
proof -
  have "prod_list (map (\<lambda>k. sh ! k) p) = prod_mset (image_mset (\<lambda>k. sh ! k) (mset p))"
    by (metis mset_map prod_mset_prod_list)
  also have "\<dots> = prod_mset (image_mset (\<lambda>k. sh ! k) (mset [0..<length sh]))"
    using perm_mset[OF assms] by simp
  also have "\<dots> = prod_list (map (\<lambda>k. sh ! k) [0..<length sh])"
    by (metis mset_map prod_mset_prod_list)
  also have "\<dots> = prod_list sh" by (simp add: map_nth)
  finally show ?thesis .
qed

lemma normalize_axis_lt: "normalize_axis n a = Some k \<Longrightarrow> k < n"
  by (auto simp: normalize_axis_def split: if_splits)

lemma transpose_nd_InrD:
  assumes "transpose_nd arr perm = Inr out"
  shows "\<exists>p. out = permuted arr p \<and> p = map (\<lambda>a. the (normalize_axis (ndim arr) a)) perm \<and>
             distinct p \<and> length p = ndim arr \<and> set p \<subseteq> {0..<ndim arr}"
proof -
  from assms obtain p where p: "those (map (normalize_axis (ndim arr)) perm) = Some p"
    and len: "length perm = ndim arr" and d: "distinct p" and out: "out = permuted arr p"
    by (auto simp: transpose_nd_def split: if_splits option.splits)
  from those_map_SomeD[OF p]
  have pm: "p = map (\<lambda>a. the (normalize_axis (ndim arr) a)) perm"
    and ok: "\<forall>a \<in> set perm. normalize_axis (ndim arr) a \<noteq> None" by auto
  have "set p \<subseteq> {0..<ndim arr}"
    using ok normalize_axis_lt unfolding pm by fastforce
  then show ?thesis using pm d len out by auto
qed

lemma transpose_nd_size:
  assumes "transpose_nd arr perm = Inr out"
  shows "size_of out = size_of arr \<and> wf_array out"
proof -
  from transpose_nd_InrD[OF assms] obtain p where p: "out = permuted arr p"
    "distinct p" "length p = ndim arr" "set p \<subseteq> {0..<ndim arr}" by blast
  have "prod_list (map (\<lambda>k. shape arr ! k) p) = prod_list (shape arr)"
    using p(2-4) by (intro prod_list_perm) (simp_all add: ndim_def)
  then have "size_of out = size_of arr"
    using p(1) by (simp add: size_of_def permuted_def Let_def)
  then show ?thesis using p(1) wf_permuted by blast
qed

lemma norm_neg_range:
  "- int n \<le> a \<Longrightarrow> a < int n \<Longrightarrow> 0 \<le> norm_neg a n \<and> norm_neg a n < int n"
  by (auto simp: norm_neg_def)

lemma canonical_perm_3:
  assumes "0 \<le> norm_neg z_axis 3" "norm_neg z_axis 3 < 3"
  shows "\<exists>y x. canonical_perm 3 z_axis None = Inr ([norm_neg z_axis 3, y, x], None) \<and>
           filter (\<lambda>i. i \<noteq> norm_neg z_axis 3) (py_range 3) = [y, x] \<and> y < x \<and>
           0 \<le> y \<and> x < 3"
proof -
  define za where "za = norm_neg z_axis 3"
  have "za = 0 \<or> za = 1 \<or> za = 2" using assms unfolding za_def by linarith
  then show ?thesis
    unfolding za_def[symmetric]
    by (auto simp: canonical_perm_def py_range_def upt_rec za_def[symmetric])
qed

lemma canonical_perm_4:
  assumes "0 \<le> norm_neg z_axis 4" "norm_neg z_axis 4 < 4"
    and "0 \<le> norm_neg c 4" "norm_neg c 4 < 4"
    and "canonical_perm 4 z_axis (Some c) = Inr (perm, cp)"
  shows "\<exists>y x. filter (\<lambda>i. i \<notin> {norm_neg z_axis 4, norm_neg c 4}) (py_range 4) = [y, x] \<and>
           y < x \<and> 0 \<le> y \<and> x < 4 \<and>
           ((cp = Some Before \<and> perm = [norm_neg z_axis 4, norm_neg c 4, y, x]) \<or>
            (cp = Some After \<and> perm = [norm_neg z_axis 4, y, x, norm_neg c 4]))"
proof -
  define za where "za = norm_neg z_axis 4"
  define ca where "ca = norm_neg c 4"
  have z: "za = 0 \<or> za = 1 \<or> za = 2 \<or> za = 3" using assms unfolding za_def by linarith
  have c: "ca = 0 \<or> ca = 1 \<or> ca = 2 \<or> ca = 3" using assms unfolding ca_def by linarith
  have ne: "za \<noteq> ca"
    using assms(5) by (auto simp: canonical_perm_def za_def ca_def Let_def split: if_splits)
  have R: "py_range 4 = [0, 1, 2, 3]" by (simp add: py_range_def upt_rec)
  from z c ne assms(5) show ?thesis
    unfolding za_def[symmetric] ca_def[symmetric]
    by (elim disjE) (simp_all add: canonical_perm_def R Let_def za_def[symmetric] ca_def[symmetric] split: if_splits, auto)
qed

lemma normalize_axis_nonneg: "0 \<le> a \<Longrightarrow> a < int n \<Longrightarrow> the (normalize_axis n a) = nat a"
  by (simp add: normalize_axis_def)

lemma transpose_nd_shape:
  assumes "transpose_nd arr perm = Inr out" and "\<forall>a \<in> set perm. 0 \<le> a \<and> a < int (ndim arr)"
  shows "shape out = map (\<lambda>k. shape arr ! nat k) perm"
proof -
  from transpose_nd_InrD[OF assms(1)] obtain p where p: "out = permuted arr p"
    "p = map (\<lambda>a. the (normalize_axis (ndim arr) a)) perm" by blast
  have "p = map nat perm"
    unfolding p(2) using assms(2) by (simp add: normalize_axis_nonneg)
  then show ?thesis using p(1) by (simp add: permuted_def Let_def comp_def)
qed

text \<open>
  Claim C6. For a well-formed array and axes inside \<open>[-ndim, ndim)\<close>, a successful
  canonicalization keeps the element count; without a channel axis the size of output
  axis 0 is the size of the resolved Z axis; and the two axes \<open>y < x\<close> that are neither Z
  nor channel stand in the permutation in this order, \<open>y\<close> before \<open>x\<close>.
\<close>
theorem canonicalize_preserves:
  assumes "wf_array arr"
    and "- int (ndim arr) \<le> z_axis" and "z_axis < int (ndim arr)"
    and "\<forall>c. c_axis = Some c \<longrightarrow> - int (ndim arr) \<le> c \<and> c < int (ndim arr)"
    and "canonicalize_preserve_c_side arr z_axis c_axis = Inr (out, cp)"
  shows "size_of out = size_of arr \<and> length (data out) = length (data arr) \<and>
         (c_axis = None \<longrightarrow> shape out ! 0 = shape arr ! nat (norm_neg z_axis (ndim arr))) \<and>
         (\<exists>perm y x. canonical_perm (ndim arr) z_axis c_axis = Inr (perm, cp) \<and>
            shape out = map (\<lambda>k. shape arr ! nat k) perm \<and>
            filter (\<lambda>i. i \<noteq> norm_neg z_axis (ndim arr) \<and>
                        Some i \<noteq> map_option (\<lambda>c. norm_neg c (ndim arr)) c_axis)
                   (py_range (ndim arr)) = [y, x] \<and>
            y < x \<and> filter (\<lambda>i. i = y \<or> i = x) perm = [y, x])"
proof -
  let ?n = "ndim arr"
  let ?za = "norm_neg z_axis ?n"
  from assms(5) obtain perm where cperm: "canonical_perm ?n z_axis c_axis = Inr (perm, cp)"
    and tr: "transpose_nd arr perm = Inr out"
    by (auto simp: canonicalize_preserve_c_side_def split: sum.splits)
  have za: "0 \<le> ?za" "?za < int ?n" using norm_neg_range[OF assms(2,3)] by auto
  have sz: "size_of out = size_of arr" and wfo: "wf_array out"
    using transpose_nd_size[OF tr] by auto
  have len: "length (data out) = length (data arr)"
    using sz wfo assms(1) by (simp add: wf_array_def size_of_def)
  have main: "\<exists>y x. shape out = map (\<lambda>k. shape arr ! nat k) perm \<and>
            filter (\<lambda>i. i \<noteq> ?za \<and> Some i \<noteq> map_option (\<lambda>c. norm_neg c ?n) c_axis)
                   (py_range ?n) = [y, x] \<and>
            y < x \<and> filter (\<lambda>i. i = y \<or> i = x) perm = [y, x] \<and>
            (c_axis = None \<longrightarrow> perm ! 0 = ?za)"
  proof (cases c_axis)
    case None
    then have n3: "?n = 3"
      using cperm by (auto simp: canonical_perm_def Let_def split: if_splits)
    from canonical_perm_3[of z_axis] za n3 obtain y x where
      yx: "canonical_perm 3 z_axis None = Inr ([norm_neg z_axis 3, y, x], None)"
        "filter (\<lambda>i. i \<noteq> norm_neg z_axis 3) (py_range 3) = [y, x]" "y < x" "0 \<le> y" "x < 3"
      by auto
    have perm: "perm = [?za, y, x]" using cperm yx(1) None n3 by simp
    have "y \<in> set (filter (\<lambda>i. i \<noteq> norm_neg z_axis 3) (py_range 3))"
         "x \<in> set (filter (\<lambda>i. i \<noteq> norm_neg z_axis 3) (py_range 3))"
      unfolding yx(2) by simp_all
    then have ne: "y \<noteq> ?za" "x \<noteq> ?za" using n3 by auto
    have rng: "\<forall>a \<in> set perm. 0 \<le> a \<and> a < int ?n"
      using perm za yx(3-5) n3 by auto
    have "shape out = map (\<lambda>k. shape arr ! nat k) perm"
      by (rule transpose_nd_shape[OF tr rng])
    then show ?thesis
      using perm yx(2,3) ne None n3 by auto
  next
    case (Some c)
    then have n4: "?n = 4"
      using cperm by (auto simp: canonical_perm_def Let_def split: if_splits)
    have ca: "0 \<le> norm_neg c 4" "norm_neg c 4 < 4"
      using assms(4) Some n4 norm_neg_range[of 4 c] by auto
    from canonical_perm_4[of z_axis c perm cp] za ca cperm Some n4 obtain y x where
      yx: "filter (\<lambda>i. i \<notin> {norm_neg z_axis 4, norm_neg c 4}) (py_range 4) = [y, x]"
        "y < x" "0 \<le> y" "x < 4"
        "(cp = Some Before \<and> perm = [norm_neg z_axis 4, norm_neg c 4, y, x]) \<or>
         (cp = Some After \<and> perm = [norm_neg z_axis 4, y, x, norm_neg c 4])"
      by auto
    have "y \<in> set (filter (\<lambda>i. i \<notin> {norm_neg z_axis 4, norm_neg c 4}) (py_range 4))"
         "x \<in> set (filter (\<lambda>i. i \<notin> {norm_neg z_axis 4, norm_neg c 4}) (py_range 4))"
      unfolding yx(1) by simp_all
    then have ne: "y \<noteq> norm_neg z_axis 4" "x \<noteq> norm_neg z_axis 4"
      "y \<noteq> norm_neg c 4" "x \<noteq> norm_neg c 4" by auto
    have rng: "\<forall>a \<in> set perm. 0 \<le> a \<and> a < int ?n"
      using yx(2-5) za ca n4 by auto
    have sh: "shape out = map (\<lambda>k. shape arr ! nat k) perm"
      by (rule transpose_nd_shape[OF tr rng])
    have f: "filter (\<lambda>i. i \<noteq> ?za \<and> Some i \<noteq> map_option (\<lambda>c. norm_neg c ?n) c_axis)
                   (py_range ?n) = [y, x]"
      using yx(1) Some n4 by (simp add: conj_commute)
    have "filter (\<lambda>i. i = y \<or> i = x) perm = [y, x]"
      using yx(5) ne yx(2) by auto
    then show ?thesis using sh f yx(2) Some by simp
  qed
  then obtain y x where yx: "shape out = map (\<lambda>k. shape arr ! nat k) perm"
    "filter (\<lambda>i. i \<noteq> ?za \<and> Some i \<noteq> map_option (\<lambda>c. norm_neg c ?n) c_axis)
                   (py_range ?n) = [y, x]"
    "y < x" "filter (\<lambda>i. i = y \<or> i = x) perm = [y, x]"
    "c_axis = None \<longrightarrow> perm ! 0 = ?za" by blast
  have z0: "shape out ! 0 = shape arr ! nat ?za" if "c_axis = None"
  proof -
    have "perm \<noteq> []" using yx(4) by auto
    then show ?thesis using yx(1,5) that by (cases perm) auto
  qed
  show ?thesis using sz len z0 cperm yx(1-4) by blast
qed


theorem canonicalize_preserves_witness:
  "canonicalize_preserve_c_side vol_c (- 2) None =
     Inr (\<lparr> shape = [3, 2, 1], data = [1, 4, 2, 5, 3, 6] \<rparr>, None) \<and>
   size_of \<lparr> shape = [3, 2, 1], data = [1, 4, 2, 5, 3, 6 :: int] \<rparr> = size_of vol_c \<and>
   shape \<lparr> shape = [3, 2, 1], data = [1, 4, 2, 5, 3, 6 :: int] \<rparr> ! 0 = shape vol_c ! nat (norm_neg (- 2) (ndim vol_c))"
proof -
  have wf: "wf_array vol_c" by (simp add: wf_array_def vol_c_def)
  have n: "ndim vol_c = 3" by (simp add: ndim_def vol_c_def)
  have run: "canonicalize_preserve_c_side vol_c (- 2) None =
     Inr (\<lparr> shape = [3, 2, 1], data = [1, 4, 2, 5, 3, 6] \<rparr>, None)"
    by code_simp
  show ?thesis
    using canonicalize_preserves[OF wf _ _ _ run] run n by simp
qed


lemma for_each_append:
  "for_each body (xs @ ys) st =
     (case for_each body xs st of Inl e \<Rightarrow> Inl e | Inr st' \<Rightarrow> for_each body ys st')"
  by (induction xs arbitrary: st) (auto split: sum.splits)

lemma loop_body_step:
  assumes "loop_body skip_empty cb T tile call note k st = Inr st'"
  shows "done_count st' = done_count st + 1 \<and>
         trace st' = trace st @ tile_events skip_empty cb T (tile k) (call k) (note k) (done_count st)"
  using assms
  by (auto simp: loop_body_def write_tile_def report_def tile_events_def Let_def
      split: sum.splits if_splits)

lemma loop_body_total:
  assumes "skip_empty \<longrightarrow> data (tile k) \<noteq> []"
  shows "\<exists>st'. loop_body skip_empty cb T tile call note k st = Inr st'"
  using assms by (auto simp: loop_body_def write_tile_def)

lemma loop_trace:
  "for_each (loop_body skip_empty cb T tile call note) [0..<n] st = Inr st' \<Longrightarrow>
   done_count st' = done_count st + n \<and>
   trace st' = trace st @
     concat (map (\<lambda>k. tile_events skip_empty cb T (tile k) (call k) (note k) (done_count st + k))
               [0..<n])"
proof (induction n arbitrary: st')
  case 0
  then show ?case by simp
next
  case (Suc n)
  let ?body = "loop_body skip_empty cb T tile call note"
  from Suc.prems obtain st1 where
    a: "for_each ?body [0..<n] st = Inr st1" and b: "?body n st1 = Inr st'"
    by (auto simp: for_each_append split: sum.splits)
  note ih = Suc.IH[OF a]
  note step = loop_body_step[OF b]
  show ?case using ih step by simp
qed

lemma loop_total:
  assumes "skip_empty \<longrightarrow> (\<forall>k<n. data (tile k) \<noteq> [])"
  shows "\<exists>st'. for_each (loop_body skip_empty cb T tile call note) [0..<n] st = Inr st'"
  using assms
proof (induction n)
  case 0
  then show ?case by simp
next
  case (Suc n)
  then obtain st1 where a: "for_each (loop_body skip_empty cb T tile call note) [0..<n] st = Inr st1"
    by auto
  have "skip_empty \<longrightarrow> data (tile n) \<noteq> []" using Suc.prems by simp
  then obtain st2
    where "loop_body skip_empty cb T tile call note n st1 = Inr st2"
    using loop_body_total[of skip_empty tile n cb T call "note" st1] by blast
  then show ?case using a by (simp add: for_each_append)
qed

lemma unpack_shape_cases:
  assumes "unpack_shape arr cp = Inr (Z, Y, X, C)"
  shows "(shape arr = [Z, Y, X] \<and> C = None) \<or>
         (\<exists>c. shape arr = [Z, c, Y, X] \<and> C = Some c \<and> cp = Some Before) \<or>
         (\<exists>c. shape arr = [Z, Y, X, c] \<and> C = Some c \<and> cp \<noteq> Some Before)"
  using assms
  by (auto simp: unpack_shape_def ndim_def split: if_splits list.splits)

lemma length_fix_axis:
  "length (data (fix_axis arr k t)) = prod_list (take k (shape arr) @ drop (Suc k) (shape arr))"
  by (simp add: fix_axis_def Let_def length_indices)

lemma shape_fix_axis:
  "shape (fix_axis arr k t) = take k (shape arr) @ drop (Suc k) (shape arr)"
  by (simp add: fix_axis_def Let_def)

lemma length_swapaxes01:
  "length (data (swapaxes01 arr)) = prod_list (map (\<lambda>k. shape arr ! k) ([1, 0] @ [2..<ndim arr]))"
  by (simp only: swapaxes01_def permuted_def Let_def ndarray.simps length_map length_indices)

lemma prod_list_pos: "0 \<notin> set xs \<Longrightarrow> 0 < prod_list (xs :: nat list)"
  by (induction xs) auto

lemma tiles_nonempty:
  assumes "canonical_volume arr" and "unpack_shape arr cp = Inr (Z, Y, X, C)"
  shows "\<forall>z<Z. data (xy_tile arr z) \<noteq> []"
    and "\<forall>y. data (zx_tile arr cp C y) \<noteq> []"
    and "\<forall>x. data (zy_tile arr cp C x) \<noteq> []"
proof -
  have wf: "length (data arr) = prod_list (shape arr)" and pos: "0 \<notin> set (shape arr)"
    using assms(1) by (auto simp: canonical_volume_def wf_array_def)
  note cs = unpack_shape_cases[OF assms(2)]
  show "\<forall>z<Z. data (xy_tile arr z) \<noteq> []"
  proof (intro allI impI)
    fix z assume z: "z < Z"
    obtain rest where sh: "shape arr = Z # rest" using cs by auto
    have P: "0 < prod_list rest" using pos sh by (simp add: prod_list_pos)
    have "length (plane (prod_list rest) (data arr) z) = prod_list rest"
      using wf sh z by (intro plane_in_range[where Z = Z]) simp_all
    then show "data (xy_tile arr z) \<noteq> []"
      using P sh by (auto simp: xy_tile_def index0_def)
  qed
  show "\<forall>y. data (zx_tile arr cp C y) \<noteq> []"
  proof
    fix y
    have "0 < length (data (zx_tile arr cp C y))"
      using cs pos
      by (elim disjE exE conjE)
         (simp_all add: zx_tile_def length_fix_axis length_swapaxes01 shape_fix_axis ndim_def
            upt_rec numeral_2_eq_2 numeral_3_eq_3 del: length_greater_0_conv)
    then show "data (zx_tile arr cp C y) \<noteq> []" by auto
  qed
  show "\<forall>x. data (zy_tile arr cp C x) \<noteq> []"
  proof
    fix x
    have "0 < length (data (zy_tile arr cp C x))"
      using cs pos
      by (elim disjE exE conjE)
         (simp_all add: zy_tile_def length_fix_axis length_swapaxes01 shape_fix_axis ndim_def
            upt_rec numeral_2_eq_2 numeral_3_eq_3 del: length_greater_0_conv)
    then show "data (zy_tile arr cp C x) \<noteq> []" by auto
  qed
qed

lemma write_slices_trace:
  assumes "unpack_shape arr_iso cp = Inr (Z, Y, X, C)"
    and "write_slices arr_iso cp src out_dir mode skip_empty cb = Inr (sm, tr)"
  shows "sm = \<lparr> sum_Z = Z, sum_Y = Y, sum_X = X, sum_C = C,
                sum_out_dir = out_base_of out_dir (stem_of src) mode,
                sum_cpos = cpos_name cp C, sum_mode = mode \<rparr> \<and>
         tr = [Mkdir (out_base_of out_dir (stem_of src) mode @ [''xy'']),
               Mkdir (out_base_of out_dir (stem_of src) mode @ [''zx'']),
               Mkdir (out_base_of out_dir (stem_of src) mode @ [''zy''])] @
              concat (map (\<lambda>z. tile_events skip_empty cb (Z + Y + X) (xy_tile arr_iso z)
                            (xy_call arr_iso cp C (out_base_of out_dir (stem_of src) mode) (stem_of src) z)
                            (note_of ''xy'' z Z) z) [0..<Z]) @
              concat (map (\<lambda>y. tile_events skip_empty cb (Z + Y + X) (zx_tile arr_iso cp C y)
                            (zx_call arr_iso cp C (out_base_of out_dir (stem_of src) mode) (stem_of src) y)
                            (note_of ''zx'' y Y) (Z + y)) [0..<Y]) @
              concat (map (\<lambda>x. tile_events skip_empty cb (Z + Y + X) (zy_tile arr_iso cp C x)
                            (zy_call arr_iso cp C (out_base_of out_dir (stem_of src) mode) (stem_of src) x)
                            (note_of ''zy'' x X) (Z + Y + x)) [0..<X])"
proof -
  let ?ob = "out_base_of out_dir (stem_of src) mode"
  let ?st0 = "\<lparr> done_count = 0, trace = [Mkdir (?ob @ [''xy'']), Mkdir (?ob @ [''zx'']), Mkdir (?ob @ [''zy''])] \<rparr>"
  let ?T = "Z + Y + X"
  let ?bxy = "loop_body skip_empty cb ?T (xy_tile arr_iso) (xy_call arr_iso cp C ?ob (stem_of src)) (\<lambda>z. note_of ''xy'' z Z)"
  let ?bzx = "loop_body skip_empty cb ?T (zx_tile arr_iso cp C) (zx_call arr_iso cp C ?ob (stem_of src)) (\<lambda>y. note_of ''zx'' y Y)"
  let ?bzy = "loop_body skip_empty cb ?T (zy_tile arr_iso cp C) (zy_call arr_iso cp C ?ob (stem_of src)) (\<lambda>x. note_of ''zy'' x X)"
  from assms obtain st1 st2 st3 where
    l1: "for_each ?bxy [0..<Z] ?st0 = Inr st1" and
    l2: "for_each ?bzx [0..<Y] st1 = Inr st2" and
    l3: "for_each ?bzy [0..<X] st2 = Inr st3" and
    sm: "sm = \<lparr> sum_Z = Z, sum_Y = Y, sum_X = X, sum_C = C, sum_out_dir = ?ob,
                sum_cpos = cpos_name cp C, sum_mode = mode \<rparr>" and
    tr: "tr = trace st3"
    by (auto simp: write_slices_def Let_def split: sum.splits)
  note t1 = loop_trace[OF l1]
  note t2 = loop_trace[OF l2]
  note t3 = loop_trace[OF l3]
  show ?thesis using sm tr t1 t2 t3 by simp
qed

lemma write_slices_total:
  assumes "unpack_shape arr_iso cp = Inr (Z, Y, X, C)"
    and "skip_empty \<longrightarrow> (\<forall>z<Z. data (xy_tile arr_iso z) \<noteq> []) \<and>
           (\<forall>y. data (zx_tile arr_iso cp C y) \<noteq> []) \<and> (\<forall>x. data (zy_tile arr_iso cp C x) \<noteq> [])"
  shows "\<exists>sm tr. write_slices arr_iso cp src out_dir mode skip_empty cb = Inr (sm, tr)"
proof -
  let ?ob = "out_base_of out_dir (stem_of src) mode"
  let ?st0 = "\<lparr> done_count = 0, trace = [Mkdir (?ob @ [''xy'']), Mkdir (?ob @ [''zx'']), Mkdir (?ob @ [''zy''])] \<rparr>"
  let ?T = "Z + Y + X"
  let ?bxy = "loop_body skip_empty cb ?T (xy_tile arr_iso) (xy_call arr_iso cp C ?ob (stem_of src)) (\<lambda>z. note_of ''xy'' z Z)"
  let ?bzx = "loop_body skip_empty cb ?T (zx_tile arr_iso cp C) (zx_call arr_iso cp C ?ob (stem_of src)) (\<lambda>y. note_of ''zx'' y Y)"
  let ?bzy = "loop_body skip_empty cb ?T (zy_tile arr_iso cp C) (zy_call arr_iso cp C ?ob (stem_of src)) (\<lambda>x. note_of ''zy'' x X)"
  obtain st1 where l1: "for_each ?bxy [0..<Z] ?st0 = Inr st1"
    using loop_total[of skip_empty Z "xy_tile arr_iso"] assms(2) by blast
  obtain st2 where l2: "for_each ?bzx [0..<Y] st1 = Inr st2"
    using loop_total[of skip_empty Y "zx_tile arr_iso cp C"] assms(2) by blast
  obtain st3 where l3: "for_each ?bzy [0..<X] st2 = Inr st3"
    using loop_total[of skip_empty X "zy_tile arr_iso cp C"] assms(2) by blast
  show ?thesis using assms(1) l1 l2 l3 by (simp add: write_slices_def Let_def)
qed

lemma is_Imwrite_call: "is_Imwrite (imwrite_call file tile cp C a b c)"
  by (simp add: imwrite_call_def)

lemma w_file_call: "w_file (imwrite_call file tile cp C a b c) = file"
  by (simp add: imwrite_call_def)

lemma filter_writes:
  assumes "\<forall>k. is_Imwrite (call k)"
  shows "filter is_Imwrite
           (concat (map (\<lambda>k. tile_events skip_empty cb T (tile k) (call k) (note k) (d k)) ks))
         = map call (filter (\<lambda>k. \<not> (skip_empty \<and> Max (set (data (tile k))) = 0)) ks)"
  using assms by (induction ks) (auto simp: tile_events_def)

lemma filter_progress:
  assumes "\<forall>k. is_Imwrite (call k)"
  shows "filter is_ProgressCb
           (concat (map (\<lambda>k. tile_events skip_empty True T (tile k) (call k) (note k) (d k)) ks))
         = map (\<lambda>k. ProgressCb (d k + 1) T (note k)) ks"
  using assms by (induction ks) (auto simp: tile_events_def)


lemma map_Suc_add_upt: "map (\<lambda>k. Suc (a + k)) [0..<n] = [Suc a..<Suc (a + n)]"
  by (induction n) simp_all

lemma upt_three:
  "[Suc 0..<Suc Z] @ [Suc Z..<Suc (Z + Y)] @ [Suc (Z + Y)..<Suc (Z + Y + X)]
   = [Suc 0..<Suc (Z + Y + X)]"
proof -
  have a: "[Suc 0..<Suc Z + Y] = [Suc 0..<Suc Z] @ [Suc Z..<Suc Z + Y]"
    by (rule upt_add_eq_append) simp
  have b: "[Suc 0..<Suc (Z + Y) + X] = [Suc 0..<Suc (Z + Y)] @ [Suc (Z + Y)..<Suc (Z + Y) + X]"
    by (rule upt_add_eq_append) simp
  show ?thesis using a b by simp
qed

lemma save_eq_write:
  "load_volume zoom arr z_aspect z_axis c_axis mode = Inr (arr_iso, cp) \<Longrightarrow>
   save_isotropic_slices zoom arr src out_dir z_aspect z_axis c_axis mode skip_empty cb
     = write_slices arr_iso cp src out_dir mode skip_empty cb"
  by (simp add: save_isotropic_slices_def)

text \<open>
  Claim C7. When the volume has been loaded and resampled and its dimensions are
  \<open>Z\<close>, \<open>Y\<close>, \<open>X\<close>, the export with \<^verbatim>\<open>skip_empty = False\<close> returns, and the \<^verbatim>\<open>imwrite\<close>
  calls it makes are, in this order, the XY tiles \<open>0..Z-1\<close>, the ZX tiles \<open>0..Y-1\<close> and
  the ZY tiles \<open>0..X-1\<close>: \<open>Z + Y + X\<close> tiles in all.
\<close>
theorem export_tile_order:
  fixes arr_iso :: "'a::{linorder,zero} ndarray"
  defines "ob \<equiv> \<lambda>out_dir src mode. out_base_of out_dir (stem_of src) mode"
  assumes "load_volume zoom arr z_aspect z_axis c_axis mode = Inr (arr_iso, cp)"
    and "unpack_shape arr_iso cp = Inr (Z, Y, X, C)"
  shows "\<exists>sm tr.
      save_isotropic_slices zoom arr src out_dir z_aspect z_axis c_axis mode False cb = Inr (sm, tr) \<and>
      sum_Z sm = Z \<and> sum_Y sm = Y \<and> sum_X sm = X \<and>
      filter is_Imwrite tr =
        map (xy_call arr_iso cp C (ob out_dir src mode) (stem_of src)) [0..<Z] @
        map (zx_call arr_iso cp C (ob out_dir src mode) (stem_of src)) [0..<Y] @
        map (zy_call arr_iso cp C (ob out_dir src mode) (stem_of src)) [0..<X] \<and>
      map w_file (filter is_Imwrite tr) =
        map (tile_file (ob out_dir src mode) (stem_of src) ''xy'') [0..<Z] @
        map (tile_file (ob out_dir src mode) (stem_of src) ''zx'') [0..<Y] @
        map (tile_file (ob out_dir src mode) (stem_of src) ''zy'') [0..<X] \<and>
      length (filter is_Imwrite tr) = Z + Y + X"
proof -
  obtain sm tr where w: "write_slices arr_iso cp src out_dir mode False cb = Inr (sm, tr)"
    using write_slices_total[OF assms(3), where skip_empty = False and src = src
        and out_dir = out_dir and mode = mode and cb = cb] by auto
  note t = write_slices_trace[OF assms(3) w]
  have calls: "\<forall>k. is_Imwrite (xy_call arr_iso cp C (ob out_dir src mode) (stem_of src) k)"
    "\<forall>k. is_Imwrite (zx_call arr_iso cp C (ob out_dir src mode) (stem_of src) k)"
    "\<forall>k. is_Imwrite (zy_call arr_iso cp C (ob out_dir src mode) (stem_of src) k)"
    by (simp_all add: xy_call_def zx_call_def zy_call_def is_Imwrite_call)
  have f: "filter is_Imwrite tr =
        map (xy_call arr_iso cp C (ob out_dir src mode) (stem_of src)) [0..<Z] @
        map (zx_call arr_iso cp C (ob out_dir src mode) (stem_of src)) [0..<Y] @
        map (zy_call arr_iso cp C (ob out_dir src mode) (stem_of src)) [0..<X]"
    using t calls unfolding ob_def by (simp add: filter_writes)
  have g: "map w_file (filter is_Imwrite tr) =
        map (tile_file (ob out_dir src mode) (stem_of src) ''xy'') [0..<Z] @
        map (tile_file (ob out_dir src mode) (stem_of src) ''zx'') [0..<Y] @
        map (tile_file (ob out_dir src mode) (stem_of src) ''zy'') [0..<X]"
    unfolding f by (simp add: xy_call_def zx_call_def zy_call_def w_file_call comp_def)
  have h: "length (filter is_Imwrite tr) = Z + Y + X"
    unfolding f by simp
  have "save_isotropic_slices zoom arr src out_dir z_aspect z_axis c_axis mode False cb = Inr (sm, tr)"
    using save_eq_write[OF assms(2)] w by simp
  then show ?thesis using t f g h by auto
qed

lemma load_vol_a:
  "load_volume no_zoom vol_a 1 (AStr ''first'') (AStr ''none'') ''labels'' = Inr (vol_a, None)"
  by code_simp

lemma unpack_vol_a: "unpack_shape vol_a None = Inr (3, 1, 2, None)"
  by (simp add: unpack_shape_def vol_a_def ndim_def)

theorem export_tile_order_witness:
  "\<exists>sm tr. save_isotropic_slices no_zoom vol_a (FromPath ''s'') [''out''] 1
              (AStr ''first'') (AStr ''none'') ''labels'' False True = Inr (sm, tr) \<and>
           length (filter is_Imwrite tr) = 6"
  using export_tile_order[OF load_vol_a unpack_vol_a, of "FromPath ''s''" "[''out'']" True]
  by fastforce


lemma map_const_upt: "map (\<lambda>k. c) [0..<n] = replicate n c"
  by (simp add: map_replicate_const)

text \<open>
  Claim C8. With a progress callback, for a loaded and resampled canonical volume of
  dimensions \<open>Z\<close>, \<open>Y\<close>, \<open>X\<close> and either value of \<^verbatim>\<open>skip_empty\<close>, the export returns and
  its trace is, after the three \<^verbatim>\<open>mkdir\<close> calls, one group per tile in loop order: the
  \<^verbatim>\<open>imwrite\<close> call, left out when \<^verbatim>\<open>skip_empty\<close> is set and the maximum of the tile is
  \<open>0\<close>, followed by exactly one progress call. The progress calls carry the counts
  \<open>1, 2, ..., Z + Y + X\<close> in this order and always the total \<open>Z + Y + X\<close>.
\<close>
theorem progress_once_per_tile:
  fixes arr_iso :: "'a::{linorder,zero} ndarray"
  defines "ob \<equiv> \<lambda>out_dir src mode. out_base_of out_dir (stem_of src) mode"
  assumes "load_volume zoom arr z_aspect z_axis c_axis mode = Inr (arr_iso, cp)"
    and "canonical_volume arr_iso"
    and "unpack_shape arr_iso cp = Inr (Z, Y, X, C)"
  shows "\<exists>sm tr.
      save_isotropic_slices zoom arr src out_dir z_aspect z_axis c_axis mode skip_empty True
        = Inr (sm, tr) \<and>
      tr = [Mkdir (ob out_dir src mode @ [''xy'']), Mkdir (ob out_dir src mode @ [''zx'']),
            Mkdir (ob out_dir src mode @ [''zy''])] @
           concat (map (\<lambda>z. tile_events skip_empty True (Z + Y + X) (xy_tile arr_iso z)
                         (xy_call arr_iso cp C (ob out_dir src mode) (stem_of src) z)
                         (note_of ''xy'' z Z) z) [0..<Z]) @
           concat (map (\<lambda>y. tile_events skip_empty True (Z + Y + X) (zx_tile arr_iso cp C y)
                         (zx_call arr_iso cp C (ob out_dir src mode) (stem_of src) y)
                         (note_of ''zx'' y Y) (Z + y)) [0..<Y]) @
           concat (map (\<lambda>x. tile_events skip_empty True (Z + Y + X) (zy_tile arr_iso cp C x)
                         (zy_call arr_iso cp C (ob out_dir src mode) (stem_of src) x)
                         (note_of ''zy'' x X) (Z + Y + x)) [0..<X]) \<and>
      map cb_done (filter is_ProgressCb tr) = [1..<Suc (Z + Y + X)] \<and>
      map cb_total (filter is_ProgressCb tr) = replicate (Z + Y + X) (Z + Y + X) \<and>
      filter is_Imwrite tr =
        map (xy_call arr_iso cp C (ob out_dir src mode) (stem_of src))
          (filter (\<lambda>z. \<not> (skip_empty \<and> Max (set (data (xy_tile arr_iso z))) = 0)) [0..<Z]) @
        map (zx_call arr_iso cp C (ob out_dir src mode) (stem_of src))
          (filter (\<lambda>y. \<not> (skip_empty \<and> Max (set (data (zx_tile arr_iso cp C y))) = 0)) [0..<Y]) @
        map (zy_call arr_iso cp C (ob out_dir src mode) (stem_of src))
          (filter (\<lambda>x. \<not> (skip_empty \<and> Max (set (data (zy_tile arr_iso cp C x))) = 0)) [0..<X])"
proof -
  let ?T = "Z + Y + X"
  let ?xy = "xy_call arr_iso cp C (ob out_dir src mode) (stem_of src)"
  let ?zx = "zx_call arr_iso cp C (ob out_dir src mode) (stem_of src)"
  let ?zy = "zy_call arr_iso cp C (ob out_dir src mode) (stem_of src)"
  note ne = tiles_nonempty[OF assms(3,4)]
  obtain sm tr where w: "write_slices arr_iso cp src out_dir mode skip_empty True = Inr (sm, tr)"
    using write_slices_total[OF assms(4), where skip_empty = skip_empty and src = src
        and out_dir = out_dir and mode = mode and cb = True] ne by auto
  note t = write_slices_trace[OF assms(4) w]
  have tr: "tr = [Mkdir (ob out_dir src mode @ [''xy'']), Mkdir (ob out_dir src mode @ [''zx'']),
            Mkdir (ob out_dir src mode @ [''zy''])] @
           concat (map (\<lambda>z. tile_events skip_empty True ?T (xy_tile arr_iso z) (?xy z)
                         (note_of ''xy'' z Z) z) [0..<Z]) @
           concat (map (\<lambda>y. tile_events skip_empty True ?T (zx_tile arr_iso cp C y) (?zx y)
                         (note_of ''zx'' y Y) (Z + y)) [0..<Y]) @
           concat (map (\<lambda>x. tile_events skip_empty True ?T (zy_tile arr_iso cp C x) (?zy x)
                         (note_of ''zy'' x X) (Z + Y + x)) [0..<X])"
    using t unfolding ob_def by simp
  have calls: "\<forall>k. is_Imwrite (?xy k)" "\<forall>k. is_Imwrite (?zx k)" "\<forall>k. is_Imwrite (?zy k)"
    by (simp_all add: xy_call_def zx_call_def zy_call_def is_Imwrite_call)
  have pr: "filter is_ProgressCb tr =
        map (\<lambda>z. ProgressCb (z + 1) ?T (note_of ''xy'' z Z)) [0..<Z] @
        map (\<lambda>y. ProgressCb (Z + y + 1) ?T (note_of ''zx'' y Y)) [0..<Y] @
        map (\<lambda>x. ProgressCb (Z + Y + x + 1) ?T (note_of ''zy'' x X)) [0..<X]"
    unfolding tr using calls by (simp add: filter_progress)
  have "map cb_done (filter is_ProgressCb tr) =
        map (\<lambda>k. Suc (0 + k)) [0..<Z] @ map (\<lambda>k. Suc (Z + k)) [0..<Y] @
        map (\<lambda>k. Suc (Z + Y + k)) [0..<X]"
    unfolding pr by (simp add: comp_def)
  also have "\<dots> = [Suc 0..<Suc (0 + Z)] @ [Suc Z..<Suc (Z + Y)] @ [Suc (Z + Y)..<Suc (Z + Y + X)]"
    by (simp only: map_Suc_add_upt)
  also have "\<dots> = [1..<Suc ?T]" using upt_three[of Z Y X] by simp
  finally have dn: "map cb_done (filter is_ProgressCb tr) = [1..<Suc ?T]" .
  have tot: "map cb_total (filter is_ProgressCb tr) = replicate ?T ?T"
    unfolding pr by (simp add: comp_def map_const_upt replicate_add)
  have wr: "filter is_Imwrite tr =
        map ?xy (filter (\<lambda>z. \<not> (skip_empty \<and> Max (set (data (xy_tile arr_iso z))) = 0)) [0..<Z]) @
        map ?zx (filter (\<lambda>y. \<not> (skip_empty \<and> Max (set (data (zx_tile arr_iso cp C y))) = 0)) [0..<Y]) @
        map ?zy (filter (\<lambda>x. \<not> (skip_empty \<and> Max (set (data (zy_tile arr_iso cp C x))) = 0)) [0..<X])"
    unfolding tr using calls by (simp add: filter_writes)
  have "save_isotropic_slices zoom arr src out_dir z_aspect z_axis c_axis mode skip_empty True
        = Inr (sm, tr)"
    using save_eq_write[OF assms(2)] w by simp
  then show ?thesis using tr dn tot wr by blast
qed

lemma canonical_vol_z: "canonical_volume vol_z"
  by (simp add: canonical_volume_def vol_z_def wf_array_def ndim_def)

lemma load_vol_z:
  "load_volume no_zoom vol_z 1 (AStr ''first'') (AStr ''none'') ''labels'' = Inr (vol_z, None)"
  by code_simp

lemma unpack_vol_z: "unpack_shape vol_z None = Inr (2, 1, 2, None)"
  by (simp add: unpack_shape_def vol_z_def ndim_def)

theorem progress_once_per_tile_witness:
  "\<exists>sm tr. save_isotropic_slices no_zoom vol_z (FromPath ''s'') [''out''] 1
              (AStr ''first'') (AStr ''none'') ''labels'' True True = Inr (sm, tr) \<and>
           map cb_done (filter is_ProgressCb tr) = [1, 2, 3, 4, 5] \<and>
           length (filter is_Imwrite tr) = 4"
proof -
  have a: "filter (\<lambda>z. \<not> (True \<and> Max (set (data (xy_tile vol_z z))) = 0)) [0..<2] = [1]"
    by code_simp
  have b: "filter (\<lambda>y. \<not> (True \<and> Max (set (data (zx_tile vol_z None None y))) = 0)) [0..<1] = [0]"
    by code_simp
  have c: "filter (\<lambda>x. \<not> (True \<and> Max (set (data (zy_tile vol_z None None x))) = 0)) [0..<2] = [0, 1]"
    by code_simp
  have d: "[1..<Suc (2 + 1 + 2)] = [1, 2, 3, 4, 5]" by code_simp
  show ?thesis
    using progress_once_per_tile[OF load_vol_z canonical_vol_z unpack_vol_z,
        of "FromPath ''s''" "[''out'']" True]
    unfolding a b c d by fastforce
qed









end
